theory Spec2Isabelle
  imports Main "HOL-Library.Sublist"
begin

section \<open>The directory and its FITS headers\<close>

text \<open>
  The collection reads the outside world through two library calls: \<^verbatim>\<open>os.listdir\<close> and
  \<^verbatim>\<open>pyfits.getheader\<close>. A header is looked up by keyword (\<^verbatim>\<open>header[keyword]\<close>);
  \<open>None\<close> stands for the \<^verbatim>\<open>KeyError\<close> of a keyword the header does not have. Reading a
  file's header gives \<open>None\<close> where \<^verbatim>\<open>pyfits.getheader\<close> raises \<^verbatim>\<open>IOError\<close>. The
  directory is assumed to be listable, and header values are strings (the index stores
  them in string columns and calls \<^verbatim>\<open>.lower()\<close> on them).
\<close>

type_synonym header = "string \<Rightarrow> string option"

record directory =
  listdir :: "string list"
  getheader :: "string \<Rightarrow> header option"

text \<open>
  \<^verbatim>\<open>fits_files_in_directory\<close>: \<^verbatim>\<open>fnmatch.filter(all_files, '*' + extension)\<close> keeps the
  names that end with the extension, one pass over the listing per extension.
\<close>

definition fits_files_in_directory :: "string list \<Rightarrow> string list \<Rightarrow> bool \<Rightarrow> string list" where
  "fits_files_in_directory all_files extensions compressed =
     (let full_extensions =
            extensions @ (if compressed then map (\<lambda>extension. extension @ ''.gz'') extensions else [])
      in concat (map (\<lambda>extension. filter (suffix extension) all_files) full_extensions))"

definition default_extensions :: "string list" where
  "default_extensions = [''fit'', ''fits'']"

section \<open>The summary table\<close>

text \<open>
  \<^verbatim>\<open>fits_summary\<close> returns a dictionary of columns. \<open>append_to\<close> is
  \<^verbatim>\<open>summary[key].append(v)\<close>; inside \<^verbatim>\<open>fits_summary\<close> the key is always present, since
  every column is created before the files are read (lemma \<open>fits_summary_apply\<close> below).
\<close>

type_synonym summary = "string \<rightharpoonup> string list"

definition append_to :: "summary \<Rightarrow> string \<Rightarrow> string \<Rightarrow> summary" where
  "append_to summary key v =
     (case summary key of None \<Rightarrow> summary | Some col \<Rightarrow> summary(key \<mapsto> col @ [v]))"

definition header_value :: "header \<Rightarrow> string \<Rightarrow> string" where
  "header_value h keyword = (case h keyword of Some v \<Rightarrow> v | None \<Rightarrow> [])"

definition add_row :: "header \<Rightarrow> string list \<Rightarrow> summary \<Rightarrow> summary" where
  "add_row h keywords summary =
     fold (\<lambda>keyword s. append_to s keyword (header_value h keyword)) keywords summary"

fun scan :: "directory \<Rightarrow> string list \<Rightarrow> string list \<Rightarrow> summary \<Rightarrow> summary" where
  "scan d keywords [] summary = summary"
| "scan d keywords (afile # rest) summary =
     (case getheader d afile of
        None \<Rightarrow> scan d keywords rest summary
      | Some h \<Rightarrow> scan d keywords rest (add_row h keywords (append_to summary ''file'' afile)))"

definition empty_columns :: "string list \<Rightarrow> summary" where
  "empty_columns keywords = fold (\<lambda>keyword s. s(keyword \<mapsto> [])) keywords (Map.empty(''file'' \<mapsto> []))"

definition fits_summary :: "directory \<Rightarrow> string list \<Rightarrow> string list \<Rightarrow> summary" where
  "fits_summary d file_list keywords =
     (let file_list' =
            (if file_list = [] then fits_files_in_directory (listdir d) default_extensions True
             else file_list)
      in scan d keywords file_list' (empty_columns keywords))"

section \<open>ImageFileCollection\<close>

text \<open>
  The attributes \<^verbatim>\<open>_keywords\<close>, \<^verbatim>\<open>_files\<close> and \<^verbatim>\<open>_summary_info\<close> of the object.
  \<^verbatim>\<open>_location\<close> is fixed (it names the directory \<open>d\<close>), and \<^verbatim>\<open>storage_dir\<close> keeps its
  default \<^verbatim>\<open>None\<close>; neither takes part in a query.
\<close>

record ImageFileCollection =
  self_keywords :: "string list"
  self_files :: "string list"
  self_summary_info :: summary

datatype error =
    ValueError_not_in_summary string
  | ValueError_same_length
  | KeyError string

definition init :: "directory \<Rightarrow> string list \<Rightarrow> ImageFileCollection" where
  "init d keywords =
     (let files = fits_files_in_directory (listdir d) default_extensions True
      in \<lparr> self_keywords = keywords,
           self_files = files,
           self_summary_info = (if keywords \<noteq> [] then fits_summary d files keywords else Map.empty) \<rparr>)"

text \<open>The setter of the property \<^verbatim>\<open>keywords\<close>: one assignment.\<close>

definition keywords_setter :: "string list \<Rightarrow> ImageFileCollection \<Rightarrow> ImageFileCollection" where
  "keywords_setter keywords self = self\<lparr> self_keywords := keywords \<rparr>"

fun has_key_in :: "string list \<Rightarrow> string \<Rightarrow> bool" where
  "has_key_in [] keyword = False"
| "has_key_in (key # rest) keyword = (if keyword = key then True else has_key_in rest keyword)"

definition has_key :: "ImageFileCollection \<Rightarrow> string \<Rightarrow> bool" where
  "has_key self keyword = has_key_in (self_keywords self) keyword"

text \<open>
  The methods are written in state-passing style: each returns its result and the
  object as the call leaves it. \<^verbatim>\<open>list(set(column))\<close> lists the distinct values in an
  order Python leaves open; \<open>remdups\<close> is one such listing.
\<close>

definition values_of ::
  "string \<Rightarrow> bool \<Rightarrow> ImageFileCollection \<Rightarrow> (error + string list) \<times> ImageFileCollection" where
  "values_of keyword unique self =
     (if \<not> has_key self keyword then (Inl (ValueError_not_in_summary keyword), self)
      else case self_summary_info self keyword of
             None \<Rightarrow> (Inl (KeyError keyword), self)
           | Some column \<Rightarrow> (Inr (if unique then remdups column else column), self))"

text \<open>
  \<^verbatim>\<open>str.lower\<close> on a byte string: the letters \<^verbatim>\<open>A\<close> to \<^verbatim>\<open>Z\<close> (codes 65 to 90) move up
  by 32, every other byte stays.
\<close>

definition lower_char :: "char \<Rightarrow> char" where
  "lower_char c = (let n = (of_char c :: nat) in if 65 \<le> n \<and> n \<le> 90 then char_of (n + 32) else c)"

definition lower :: "string \<Rightarrow> string" where
  "lower s = map lower_char s"

text \<open>
  The argument \<^verbatim>\<open>values\<close> of \<^verbatim>\<open>_find_keywords_by_values\<close> is either the string
  \<^verbatim>\<open>'*'\<close> or a list of strings.
\<close>

datatype values_arg = Star | Values "string list"

text \<open>
  The rows of one column that match one value. Index sets are kept as lists of
  distinct indices in ascending order; \<open>have_this_value\<close> is the set built in the body
  of the loop, and \<open>intersect_all\<close> is the loop, which stops with \<^verbatim>\<open>KeyError\<close> at the
  first keyword that the table in use has no column for.
\<close>

definition have_this_value :: "string list \<Rightarrow> string \<Rightarrow> nat list" where
  "have_this_value column v =
     (if v = ''*'' then filter (\<lambda>idx. column ! idx \<noteq> []) [0..<length column]
      else filter (\<lambda>idx. lower (column ! idx) = lower v) [0..<length column])"

fun intersect_all :: "summary \<Rightarrow> (string \<times> string) list \<Rightarrow> nat list \<Rightarrow> error + nat list" where
  "intersect_all use_info [] have_all = Inr have_all"
| "intersect_all use_info ((key, v) # rest) have_all =
     (case use_info key of
        None \<Rightarrow> Inl (KeyError key)
      | Some column \<Rightarrow>
          intersect_all use_info rest
            (filter (\<lambda>idx. idx \<in> set (have_this_value column v)) have_all))"

definition use_values_of :: "values_arg \<Rightarrow> string list \<Rightarrow> string list" where
  "use_values_of vals keywords =
     (case vals of Star \<Rightarrow> replicate (length keywords) ''*'' | Values vs \<Rightarrow> vs)"

definition use_info_of :: "directory \<Rightarrow> ImageFileCollection \<Rightarrow> string list \<Rightarrow> summary" where
  "use_info_of d self keywords =
     (if set keywords \<inter> set (self_keywords self) \<noteq> {} then self_summary_info self
      else fits_summary d (self_files self) keywords)"

definition find_keywords_by_values ::
  "directory \<Rightarrow> string list \<Rightarrow> values_arg \<Rightarrow> ImageFileCollection
     \<Rightarrow> (error + string list) \<times> ImageFileCollection" where
  "find_keywords_by_values d keywords vals self =
     (case intersect_all (use_info_of d self keywords)
             (zip keywords (use_values_of vals keywords))
             [0..<length (self_files self)] of
        Inl err \<Rightarrow> (Inl err, self)
      | Inr have_all \<Rightarrow> (Inr (map (\<lambda>idx. self_files self ! idx) have_all), self))"

definition files_with_keys ::
  "directory \<Rightarrow> string list \<Rightarrow> ImageFileCollection \<Rightarrow> (error + string list) \<times> ImageFileCollection" where
  "files_with_keys d keywords self =
     (let use_keys = (if keywords = [] then self_keywords self else keywords)
      in find_keywords_by_values d use_keys Star self)"

definition files_with_key_values ::
  "directory \<Rightarrow> string list \<Rightarrow> string list \<Rightarrow> ImageFileCollection
     \<Rightarrow> (error + string list) \<times> ImageFileCollection" where
  "files_with_key_values d keywords vs self =
     (if length keywords \<noteq> length vs then (Inl ValueError_same_length, self)
      else find_keywords_by_values d keywords (Values vs) self)"

section \<open>The rows of a scanned table\<close>

text \<open>
  Two notions for describing what \<open>scan\<close> builds. \<open>readable\<close> keeps the files whose
  header can be read, in order. \<open>row_entries\<close> lists what reading one such file appends to
  the column of \<open>k\<close>: the file's name, if \<open>k\<close> is the column \<^verbatim>\<open>'file'\<close>, and then the
  header's value for \<open>k\<close> once for each time \<open>k\<close> stands in the keyword list.
\<close>

definition readable :: "directory \<Rightarrow> string list \<Rightarrow> string list" where
  "readable d file_list = filter (\<lambda>afile. getheader d afile \<noteq> None) file_list"

definition row_entries :: "string list \<Rightarrow> string \<Rightarrow> header \<Rightarrow> string \<Rightarrow> string list" where
  "row_entries ks afile h k =
     (if k = ''file'' then [afile] else []) @ replicate (count_list ks k) (header_value h k)"

section \<open>A sample directory\<close>

text \<open>
  Three files: \<^verbatim>\<open>a.fits\<close> (IMAGETYP LIGHT, FILTER R), \<^verbatim>\<open>b.fits\<close> (IMAGETYP BIAS, no
  FILTER) and \<^verbatim>\<open>c.fits.gz\<close> (IMAGETYP LIGHT, FILTER r), and a text file that is not
  listed as FITS.
\<close>

definition hdr_a :: header where
  "hdr_a = [''imagetyp'' \<mapsto> ''LIGHT'', ''filter'' \<mapsto> ''R'']"

definition hdr_b :: header where
  "hdr_b = [''imagetyp'' \<mapsto> ''BIAS'']"

definition hdr_c :: header where
  "hdr_c = [''imagetyp'' \<mapsto> ''LIGHT'', ''filter'' \<mapsto> ''r'']"

definition sample_dir :: directory where
  "sample_dir =
     \<lparr> listdir = [''a.fits'', ''notes.txt'', ''b.fits'', ''c.fits.gz''],
       getheader = [''a.fits'' \<mapsto> hdr_a, ''b.fits'' \<mapsto> hdr_b, ''c.fits.gz'' \<mapsto> hdr_c] \<rparr>"

text \<open>The same directory with \<^verbatim>\<open>a.fits\<close> unreadable.\<close>

definition broken_dir :: directory where
  "broken_dir =
     \<lparr> listdir = [''a.fits'', ''notes.txt'', ''b.fits'', ''c.fits.gz''],
       getheader = [''b.fits'' \<mapsto> hdr_b, ''c.fits.gz'' \<mapsto> hdr_c] \<rparr>"

section \<open>Basic facts\<close>

lemma sample_files:
  "fits_files_in_directory (listdir sample_dir) default_extensions True
     = [''a.fits'', ''b.fits'', ''c.fits.gz'']"
  by (simp add: fits_files_in_directory_def default_extensions_def sample_dir_def suffix_def)

lemma snd_find_keywords_by_values:
  "snd (find_keywords_by_values d ks vals self) = self"
  by (simp add: find_keywords_by_values_def split: sum.splits)

lemma snd_files_with_keys: "snd (files_with_keys d ks self) = self"
  by (simp add: files_with_keys_def Let_def snd_find_keywords_by_values)

lemma snd_files_with_key_values: "snd (files_with_key_values d ks vs self) = self"
  by (simp add: files_with_key_values_def snd_find_keywords_by_values)

lemma has_key_in_iff: "has_key_in keys keyword \<longleftrightarrow> keyword \<in> set keys"
  by (induction keys) auto

lemma has_key_iff: "has_key self keyword \<longleftrightarrow> keyword \<in> set (self_keywords self)"
  by (simp add: has_key_def has_key_in_iff)

section \<open>What the summary table holds\<close>

lemma append_to_apply:
  "append_to s key v k = (if k = key then map_option (\<lambda>col. col @ [v]) (s key) else s k)"
  by (simp add: append_to_def split: option.splits)

lemma add_row_apply:
  "add_row h ks s k
     = map_option (\<lambda>col. col @ replicate (count_list ks k) (header_value h k)) (s k)"
proof (induction ks arbitrary: s)
  case Nil
  then show ?case by (simp add: add_row_def option.map_ident)
next
  case (Cons a ks)
  have "add_row h (a # ks) s = add_row h ks (append_to s a (header_value h a))"
    by (simp add: add_row_def)
  then show ?case
    by (simp add: Cons.IH append_to_apply option.map_comp comp_def replicate_app_Cons_same)
qed

lemma scan_apply:
  "scan d ks file_list s k
     = map_option
         (\<lambda>col. col @ concat (map (\<lambda>afile. row_entries ks afile (the (getheader d afile)) k)
                               (readable d file_list)))
         (s k)"
proof (induction file_list arbitrary: s)
  case Nil
  then show ?case by (simp add: readable_def option.map_ident)
next
  case (Cons afile rest)
  show ?case
  proof (cases "getheader d afile")
    case None
    then show ?thesis by (simp add: Cons.IH readable_def)
  next
    case (Some h)
    then show ?thesis
      by (simp add: Cons.IH readable_def add_row_apply append_to_apply row_entries_def
            option.map_comp comp_def)
  qed
qed

lemma empty_columns_apply:
  "empty_columns ks k = (if k \<in> set ks \<or> k = ''file'' then Some [] else None)"
proof -
  have "fold (\<lambda>keyword s. s(keyword \<mapsto> [])) ks s k
          = (if k \<in> set ks then Some [] else s k)" for s :: summary
    by (induction ks arbitrary: s) auto
  then show ?thesis by (simp add: empty_columns_def)
qed

lemma fits_summary_apply:
  "file_list \<noteq> [] \<or> fits_files_in_directory (listdir d) default_extensions True = [] \<Longrightarrow>
   fits_summary d file_list ks k
     = (if k \<in> set ks \<or> k = ''file''
        then Some (concat (map (\<lambda>afile. row_entries ks afile (the (getheader d afile)) k)
                               (readable d file_list)))
        else None)"
  by (auto simp add: fits_summary_def scan_apply empty_columns_apply readable_def)

lemma init_files: "self_files (init d ks) = fits_files_in_directory (listdir d) default_extensions True"
  by (simp add: init_def Let_def)

lemma init_summary_apply:
  assumes "ks \<noteq> []"
  shows "self_summary_info (init d ks) k
     = (if k \<in> set ks \<or> k = ''file''
        then Some (concat (map (\<lambda>afile. row_entries ks afile (the (getheader d afile)) k)
                               (readable d (self_files (init d ks)))))
        else None)"
proof -
  have "self_summary_info (init d ks) = fits_summary d (self_files (init d ks)) ks"
    using assms by (simp add: init_def Let_def)
  moreover have "self_files (init d ks) \<noteq> []
      \<or> fits_files_in_directory (listdir d) default_extensions True = []"
    by (simp add: init_files)
  ultimately show ?thesis
    by (simp only: fits_summary_apply)
qed

lemma count_list_distinct: "distinct xs \<Longrightarrow> x \<in> set xs \<Longrightarrow> count_list xs x = 1"
  by (induction xs) auto

lemma concat_singletons: "concat (map (\<lambda>x. [f x]) xs) = map f xs"
  by (induction xs) simp_all

section \<open>Lower case and the wildcard\<close>

text \<open>
  The loop tests \<^verbatim>\<open>value == '*'\<close> before it lowers anything, so two values with the
  same lower-case form must agree on being the wildcard: no other string lowers to
  \<^verbatim>\<open>'*'\<close>.
\<close>

lemma lower_char_star:
  assumes "lower_char c = CHR ''*''"
  shows "c = CHR ''*''"
proof (cases "65 \<le> (of_char c :: nat) \<and> (of_char c :: nat) \<le> 90")
  case False
  then have "lower_char c = c"
    by (auto simp add: lower_char_def Let_def)
  with assms show ?thesis by simp
next
  case True
  then have "lower_char c = char_of (of_char c + 32 :: nat)"
    by (simp add: lower_char_def Let_def)
  with assms have "(of_char (char_of (of_char c + 32 :: nat) :: char) :: nat) = of_char CHR ''*''"
    by simp
  with True show ?thesis by simp
qed

lemma lower_star: "lower v = lower ''*'' \<longleftrightarrow> v = ''*''"
proof
  assume a: "lower v = lower ''*''"
  have l: "lower ''*'' = ''*''" by (simp add: lower_def lower_char_def)
  from a l obtain c where v: "v = [c]" and "lower_char c = CHR ''*''"
    by (cases v) (auto simp: lower_def)
  then show "v = ''*''" using lower_char_star by simp
qed simp

lemma have_this_value_lower:
  "lower v1 = lower v2 \<Longrightarrow> have_this_value column v1 = have_this_value column v2"
  using lower_star [of v1] lower_star [of v2] by (auto simp: have_this_value_def)

lemma intersect_all_lower:
  "map lower vs1 = map lower vs2 \<Longrightarrow>
     intersect_all use_info (zip ks vs1) have_all
       = intersect_all use_info (zip ks vs2) have_all"
proof (induction ks arbitrary: vs1 vs2 have_all)
  case Nil
  then show ?case by simp
next
  case (Cons key ks)
  show ?case
  proof (cases vs1)
    case Nil
    with Cons.prems show ?thesis by simp
  next
    case c1: (Cons v1 rest1)
    with Cons.prems obtain v2 rest2 where c2: "vs2 = v2 # rest2"
      and lv: "lower v1 = lower v2" and lr: "map lower rest1 = map lower rest2"
      by (cases vs2) auto
    from lv have "have_this_value column v1 = have_this_value column v2" for column
      by (rule have_this_value_lower)
    with Cons.IH [OF lr] c1 c2 show ?thesis
      by (simp split: option.splits)
  qed
qed

section \<open>The cache test, the setter and the accessor\<close>

lemma use_info_of_cached:
  "set ks \<inter> set (self_keywords self) \<noteq> {} \<Longrightarrow> use_info_of d self ks = self_summary_info self"
  by (simp add: use_info_of_def)

lemma use_info_of_fresh:
  "set ks \<inter> set (self_keywords self) = {} \<Longrightarrow>
     use_info_of d self ks = fits_summary d (self_files self) ks"
  by (simp add: use_info_of_def)

lemma keywords_setter_summary:
  "self_summary_info (keywords_setter ks self) = self_summary_info self"
  by (simp add: keywords_setter_def)

lemma values_of_untracked:
  "keyword \<notin> set (self_keywords self) \<Longrightarrow>
     values_of keyword unique self = (Inl (ValueError_not_in_summary keyword), self)"
  by (simp add: values_of_def has_key_iff)

lemma values_of_success:
  assumes "fst (values_of keyword unique self) = Inr r"
  shows "keyword \<in> set (self_keywords self)
       \<and> (\<exists>column. self_summary_info self keyword = Some column
             \<and> (if unique then r = remdups column else r = column))"
  using assms by (auto simp add: values_of_def has_key_iff split: if_splits option.splits)

lemma values_of_init:
  assumes "keyword \<in> set ks"
  shows "\<exists>column. self_summary_info (init d ks) keyword = Some column
           \<and> values_of keyword unique (init d ks)
               = (Inr (if unique then remdups column else column), init d ks)"
proof -
  from assms have ne: "ks \<noteq> []" by auto
  from assms obtain column where c: "self_summary_info (init d ks) keyword = Some column"
    by (simp add: init_summary_apply [OF ne])
  moreover from assms have "has_key (init d ks) keyword"
    by (simp add: has_key_iff init_def Let_def)
  ultimately show ?thesis
    by (simp add: values_of_def)
qed

section \<open>Wildcard queries on a table with one row per file\<close>

text \<open>
  When every listed file is readable and the requested keywords are either all tracked
  or all untracked, the table in use has one row per file, in the order of the file
  list, and \<^verbatim>\<open>files_with_keys\<close> returns the files whose header has a non-empty value
  for every keyword asked for.
\<close>

lemma intersect_all_Inr:
  assumes "\<forall>(k, v) \<in> set pairs. use_info k \<noteq> None"
  shows "intersect_all use_info pairs have_all
       = Inr (filter (\<lambda>idx. \<forall>(k, v) \<in> set pairs. idx \<in> set (have_this_value (the (use_info k)) v))
                have_all)"
  using assms
proof (induction pairs arbitrary: have_all)
  case Nil
  then show ?case by simp
next
  case (Cons p pairs)
  obtain k v where p: "p = (k, v)" by (cases p)
  with Cons.prems obtain column where c: "use_info k = Some column" by auto
  from Cons.prems have "\<forall>(k, v) \<in> set pairs. use_info k \<noteq> None" by simp
  from Cons.IH [OF this] p c show ?case
    by (auto intro: filter_cong)
qed

lemma have_this_value_star:
  "idx \<in> set (have_this_value column ''*'') \<longleftrightarrow> idx < length column \<and> column ! idx \<noteq> []"
  by (auto simp add: have_this_value_def)

lemma map_nth_filter:
  "map (\<lambda>idx. xs ! idx) (filter (\<lambda>idx. P (xs ! idx)) [0..<length xs]) = filter P xs"
proof (induction xs rule: rev_induct)
  case Nil
  then show ?case by simp
next
  case (snoc x xs)
  have "filter (\<lambda>idx. P ((xs @ [x]) ! idx)) [0..<length xs]
          = filter (\<lambda>idx. P (xs ! idx)) [0..<length xs]"
    by (rule filter_cong) (simp_all add: nth_append)
  moreover have "map (\<lambda>idx. (xs @ [x]) ! idx) (filter (\<lambda>idx. P (xs ! idx)) [0..<length xs])
          = map (\<lambda>idx. xs ! idx) (filter (\<lambda>idx. P (xs ! idx)) [0..<length xs])"
    by (rule map_cong) (simp_all add: nth_append)
  ultimately show ?case
    using snoc.IH by (simp add: nth_append)
qed

lemma wildcard_on_aligned_table:
  assumes "\<forall>k \<in> set ks. use_info k = Some (map (\<lambda>afile. val afile k) files)"
  shows "intersect_all use_info (zip ks (replicate (length ks) ''*'')) [0..<length files]
       = Inr (filter (\<lambda>idx. \<forall>k \<in> set ks. val (files ! idx) k \<noteq> []) [0..<length files])"
proof -
  have z: "set (zip ks (replicate (length ks) ''*'')) = (\<lambda>k. (k, ''*'')) ` set ks"
    by (induction ks) auto
  from assms have "\<forall>(k, v) \<in> set (zip ks (replicate (length ks) ''*'')). use_info k \<noteq> None"
    by (auto simp add: z)
  from intersect_all_Inr [OF this] have
    "intersect_all use_info (zip ks (replicate (length ks) ''*'')) [0..<length files]
       = Inr (filter (\<lambda>idx. \<forall>k \<in> set ks. idx \<in> set (have_this_value (the (use_info k)) ''*''))
                [0..<length files])"
    by (simp add: z)
  moreover have "filter (\<lambda>idx. \<forall>k \<in> set ks. idx \<in> set (have_this_value (the (use_info k)) ''*''))
                [0..<length files]
       = filter (\<lambda>idx. \<forall>k \<in> set ks. val (files ! idx) k \<noteq> []) [0..<length files]"
    using assms by (intro filter_cong) (auto simp add: have_this_value_star)
  ultimately show ?thesis by simp
qed

lemma aligned_columns:
  assumes "distinct ks" and "''file'' \<notin> set ks" and "k \<in> set ks"
    and "\<forall>afile \<in> set files. getheader d afile \<noteq> None"
  shows "concat (map (\<lambda>afile. row_entries ks afile (the (getheader d afile)) k) (readable d files))
       = map (\<lambda>afile. header_value (the (getheader d afile)) k) files"
proof -
  from assms(4) have "readable d files = files"
    by (simp add: readable_def filter_id_conv)
  moreover from assms(1,3) have "count_list ks k = 1"
    by (simp add: count_list_distinct)
  moreover from assms(2,3) have "k \<noteq> ''file''" by auto
  ultimately show ?thesis
    by (simp add: row_entries_def concat_singletons)
qed

lemma files_with_keys_all_readable:
  assumes rd: "\<forall>afile \<in> set (self_files (init d ks0)). getheader d afile \<noteq> None"
    and d0: "distinct ks0" and f0: "''file'' \<notin> set ks0"
    and d1: "distinct ks" and f1: "''file'' \<notin> set ks"
    and ov: "set ks \<subseteq> set ks0 \<or> set ks \<inter> set ks0 = {}"
  shows "fst (files_with_keys d ks (init d ks0))
       = Inr (filter (\<lambda>afile. \<forall>k \<in> set (if ks = [] then ks0 else ks).
                                 header_value (the (getheader d afile)) k \<noteq> [])
                (self_files (init d ks0)))"
proof -
  let ?self = "init d ks0"
  let ?files = "self_files ?self"
  let ?val = "\<lambda>afile k. header_value (the (getheader d afile)) k"
  define uk where "uk = (if ks = [] then ks0 else ks)"
  have kw: "self_keywords ?self = ks0" by (simp add: init_def Let_def)
  have fw: "files_with_keys d ks ?self = find_keywords_by_values d uk Star ?self"
    by (simp add: files_with_keys_def uk_def kw)
  from d0 d1 have du: "distinct uk" by (simp add: uk_def)
  from f0 f1 have fu: "''file'' \<notin> set uk" by (simp add: uk_def)
  from ov have ov': "set uk \<subseteq> set ks0 \<or> set uk \<inter> set ks0 = {}" by (simp add: uk_def)
  have cols: "\<forall>k \<in> set uk. use_info_of d ?self uk k = Some (map (\<lambda>afile. ?val afile k) ?files)"
  proof (cases "set uk \<inter> set ks0 \<noteq> {}")
    case True
    then have ne: "ks0 \<noteq> []" by auto
    from True ov' have sub: "set uk \<subseteq> set ks0" by auto
    from True have u: "use_info_of d ?self uk = self_summary_info ?self"
      by (simp add: use_info_of_def kw)
    show ?thesis
    proof
      fix k assume "k \<in> set uk"
      with sub have k0: "k \<in> set ks0" by auto
      with u show "use_info_of d ?self uk k = Some (map (\<lambda>afile. ?val afile k) ?files)"
        by (simp add: init_summary_apply [OF ne] aligned_columns [OF d0 f0 k0 rd])
    qed
  next
    case False
    then have u: "use_info_of d ?self uk = fits_summary d ?files uk"
      by (simp add: use_info_of_def kw)
    have side: "?files \<noteq> [] \<or> fits_files_in_directory (listdir d) default_extensions True = []"
      by (simp add: init_files)
    show ?thesis
    proof
      fix k assume k: "k \<in> set uk"
      from k have "fits_summary d ?files uk k
          = Some (concat (map (\<lambda>afile. row_entries uk afile (the (getheader d afile)) k)
                            (readable d ?files)))"
        by (simp only: fits_summary_apply [OF side] simp_thms if_True)
      with u show "use_info_of d ?self uk k = Some (map (\<lambda>afile. ?val afile k) ?files)"
        by (simp only: aligned_columns [OF du fu k rd])
    qed
  qed
  from wildcard_on_aligned_table [OF cols]
  have "fst (find_keywords_by_values d uk Star ?self)
          = Inr (map (\<lambda>idx. ?files ! idx)
                  (filter (\<lambda>idx. \<forall>k \<in> set uk. ?val (?files ! idx) k \<noteq> []) [0..<length ?files]))"
    by (simp add: find_keywords_by_values_def use_values_of_def)
  then have "fst (find_keywords_by_values d uk Star ?self)
          = Inr (filter (\<lambda>afile. \<forall>k \<in> set uk. ?val afile k \<noteq> []) ?files)"
    by (simp only: map_nth_filter [of ?files "\<lambda>afile. \<forall>k \<in> set uk. ?val afile k \<noteq> []"])
  then show ?thesis
    by (simp only: fw uk_def)
qed

section \<open>Properties of the queries\<close>

text \<open>
  Claim C1. The cached summary is to be used exactly when all requested keywords are
  tracked. \<^verbatim>\<open>_find_keywords_by_values\<close> tests \<^verbatim>\<open>set(keywords) & set(self.keywords)\<close>,
  which is true as soon as one requested keyword is tracked. For a collection that
  tracks \<^verbatim>\<open>imagetyp\<close> only, the query for \<^verbatim>\<open>imagetyp\<close> and \<^verbatim>\<open>filter\<close> is evaluated
  on the cached table, which has no column \<^verbatim>\<open>filter\<close>, and ends in \<^verbatim>\<open>KeyError\<close>; the
  files are not scanned.
\<close>

theorem overlap_uses_cache_and_fails:
  "use_info_of sample_dir (init sample_dir [''imagetyp'']) [''imagetyp'', ''filter'']
     = self_summary_info (init sample_dir [''imagetyp''])
   \<and> self_summary_info (init sample_dir [''imagetyp'']) ''filter'' = None
   \<and> fst (files_with_key_values sample_dir [''imagetyp'', ''filter''] [''light'', ''r'']
            (init sample_dir [''imagetyp'']))
        = Inl (KeyError ''filter'')"
proof -
  have a: "use_info_of sample_dir (init sample_dir [''imagetyp'']) [''imagetyp'', ''filter'']
     = self_summary_info (init sample_dir [''imagetyp''])"
    by (simp add: use_info_of_def init_def Let_def)
  have b: "self_summary_info (init sample_dir [''imagetyp'']) ''filter'' = None"
    by code_simp
  have c: "fst (files_with_key_values sample_dir [''imagetyp'', ''filter''] [''light'', ''r'']
            (init sample_dir [''imagetyp'']))
        = Inl (KeyError ''filter'')"
    by code_simp
  from a b c show ?thesis by simp
qed

text \<open>
  Claim C2. The matching rows are to be mapped to the file names of the table that was
  evaluated. The code indexes \<^verbatim>\<open>self._files\<close> instead. In the directory where
  \<^verbatim>\<open>a.fits\<close> cannot be read, the table has the rows of \<^verbatim>\<open>b.fits\<close> and \<^verbatim>\<open>c.fits.gz\<close>;
  the query for IMAGETYP \<^verbatim>\<open>bias\<close> matches row 0, the row of \<^verbatim>\<open>b.fits\<close>, and the name
  returned is \<^verbatim>\<open>a.fits\<close>, a file with no row in the table.
\<close>

theorem names_taken_from_full_listing:
  "self_summary_info (init broken_dir [''imagetyp'']) ''file'' = Some [''b.fits'', ''c.fits.gz'']
   \<and> self_summary_info (init broken_dir [''imagetyp'']) ''imagetyp'' = Some [''BIAS'', ''LIGHT'']
   \<and> getheader broken_dir ''a.fits'' = None
   \<and> fst (files_with_key_values broken_dir [''imagetyp''] [''bias'']
            (init broken_dir [''imagetyp'']))
        = Inr [''a.fits'']"
  by code_simp

text \<open>
  Claim C3. Setting the keywords is to rebuild the summary table. The setter assigns
  \<^verbatim>\<open>_keywords\<close> and nothing else: after a collection that tracks \<^verbatim>\<open>imagetyp\<close> is told
  to track \<^verbatim>\<open>filter\<close>, the keyword list is \<^verbatim>\<open>filter\<close>, and the table still holds the
  column \<^verbatim>\<open>imagetyp\<close> and has no column \<^verbatim>\<open>filter\<close>.
\<close>

theorem setter_leaves_summary_stale:
  "self_keywords (keywords_setter [''filter''] (init sample_dir [''imagetyp''])) = [''filter'']
   \<and> self_summary_info (keywords_setter [''filter''] (init sample_dir [''imagetyp''])) ''filter''
        = None
   \<and> self_summary_info (keywords_setter [''filter''] (init sample_dir [''imagetyp''])) ''imagetyp''
        = Some [''LIGHT'', ''BIAS'', ''LIGHT'']"
  by code_simp

text \<open>
  Claim C4, amended. \<^verbatim>\<open>fits_summary\<close> skips a file whose header cannot be read, so the
  columns have one entry for each readable file, not one for each listed file. For a
  collection constructed with a non-empty list of distinct keywords, none of them
  \<^verbatim>\<open>'file'\<close>: the column \<^verbatim>\<open>'file'\<close> is the list of the readable files, in the order of
  the file list; the column of every tracked keyword holds, file by file in that same
  order, the header's value for the keyword, and the empty string where the header does
  not have the keyword; and when every listed file is readable, the readable files are
  the whole file list, so every column has exactly as many entries as there are files.
\<close>

theorem init_summary_columns:
  assumes "ks \<noteq> []" and "distinct ks" and "''file'' \<notin> set ks"
  shows "let self = init d ks;
             indexed = filter (\<lambda>afile. getheader d afile \<noteq> None) (self_files self)
         in self_summary_info self ''file'' = Some indexed
          \<and> (\<forall>k\<in>set ks. self_summary_info self k
                 = Some (map (\<lambda>afile. header_value (the (getheader d afile)) k) indexed))
          \<and> ((\<forall>afile\<in>set (self_files self). getheader d afile \<noteq> None)
                \<longrightarrow> indexed = self_files self)"
proof -
  let ?self = "init d ks"
  let ?indexed = "filter (\<lambda>afile. getheader d afile \<noteq> None) (self_files ?self)"
  from assms(3) have "count_list ks ''file'' = 0"
    by (simp add: count_list_0_iff)
  then have a: "self_summary_info ?self ''file'' = Some ?indexed"
    by (simp add: init_summary_apply [OF assms(1)] row_entries_def readable_def concat_singletons)
  have b: "self_summary_info ?self k
             = Some (map (\<lambda>afile. header_value (the (getheader d afile)) k) ?indexed)"
    if "k \<in> set ks" for k
  proof -
    from that assms(2) have "count_list ks k = 1"
      by (simp add: count_list_distinct)
    moreover from that assms(3) have "k \<noteq> ''file''" by auto
    ultimately show ?thesis using that
      by (simp add: init_summary_apply [OF assms(1)] row_entries_def readable_def concat_singletons)
  qed
  have c: "(\<forall>afile\<in>set (self_files ?self). getheader d afile \<noteq> None)
             \<longrightarrow> ?indexed = self_files ?self"
    by (simp add: filter_id_conv)
  from a b c show ?thesis by (simp add: Let_def)
qed

theorem init_summary_columns_witness:
  "[''imagetyp'', ''filter''] \<noteq> [] \<and> distinct [''imagetyp'', ''filter'']
   \<and> ''file'' \<notin> set [''imagetyp'', ''filter'']
   \<and> self_summary_info (init sample_dir [''imagetyp'', ''filter'']) ''file''
        = Some [''a.fits'', ''b.fits'', ''c.fits.gz'']
   \<and> self_summary_info (init sample_dir [''imagetyp'', ''filter'']) ''filter''
        = Some [''R'', '''', ''r'']"
proof -
  have h1: "[''imagetyp'', ''filter''] \<noteq> []" by simp
  have h2: "distinct [''imagetyp'', ''filter'']" by simp
  have h3: "''file'' \<notin> set [''imagetyp'', ''filter'']" by simp
  from h1 h2 h3 init_summary_columns [OF h1 h2 h3, of sample_dir]
  show ?thesis
    by (simp add: Let_def init_files sample_files)
       (simp add: sample_dir_def hdr_a_def hdr_b_def hdr_c_def header_value_def)
qed

text \<open>
  Claim C4 as first stated fails where a file cannot be read: with \<^verbatim>\<open>a.fits\<close>
  unreadable the file list has three names and the columns have two entries.
\<close>

theorem init_summary_columns_counterexample:
  "self_files (init broken_dir [''imagetyp'']) = [''a.fits'', ''b.fits'', ''c.fits.gz'']
   \<and> self_summary_info (init broken_dir [''imagetyp'']) ''imagetyp'' = Some [''BIAS'', ''LIGHT'']
   \<and> self_summary_info (init broken_dir [''imagetyp'']) ''file'' = Some [''b.fits'', ''c.fits.gz'']
   \<and> self_summary_info (init broken_dir [''imagetyp'']) ''file''
        \<noteq> Some (self_files (init broken_dir [''imagetyp'']))"
  by code_simp

text \<open>
  Claim C5. Value comparison in \<^verbatim>\<open>files_with_key_values\<close> is case-insensitive: two
  value lists whose entries have the same lower-case form, position by position, give
  the same outcome for every keyword list, every collection and every directory (the
  same list of file names, or the same error).
\<close>

theorem case_insensitive:
  assumes "map lower vs1 = map lower vs2"
  shows "files_with_key_values d ks vs1 self = files_with_key_values d ks vs2 self"
proof -
  from assms have "length vs1 = length vs2"
    by (rule map_eq_imp_length_eq)
  with intersect_all_lower [OF assms] show ?thesis
    by (simp add: files_with_key_values_def find_keywords_by_values_def use_values_of_def)
qed

theorem case_insensitive_witness:
  "map lower [''Light''] = map lower [''LIGHT'']
   \<and> files_with_key_values sample_dir [''imagetyp''] [''Light''] (init sample_dir [''imagetyp''])
       = files_with_key_values sample_dir [''imagetyp''] [''LIGHT''] (init sample_dir [''imagetyp''])
   \<and> fst (files_with_key_values sample_dir [''imagetyp''] [''LIGHT''] (init sample_dir [''imagetyp'']))
       = Inr [''a.fits'', ''c.fits.gz'']"
proof -
  have h: "map lower [''Light''] = map lower [''LIGHT'']"
    by code_simp
  have r: "fst (files_with_key_values sample_dir [''imagetyp''] [''LIGHT''] (init sample_dir [''imagetyp'']))
       = Inr [''a.fits'', ''c.fits.gz'']"
    by code_simp
  from h r case_insensitive [OF h, of sample_dir "[''imagetyp'']" "init sample_dir [''imagetyp'']"]
  show ?thesis by simp
qed

text \<open>
  Claim C6. \<^verbatim>\<open>files_with_keys\<close> is to return the files in which every listed keyword
  has a non-empty value. It does so for \<^verbatim>\<open>filter\<close> alone in the sample directory. Asked
  for \<^verbatim>\<open>imagetyp\<close> and \<^verbatim>\<open>filter\<close> by a collection that tracks \<^verbatim>\<open>imagetyp\<close>, it ends
  in \<^verbatim>\<open>KeyError\<close> (the cached table is taken, as under C1). Where \<^verbatim>\<open>a.fits\<close> cannot be
  read it returns \<^verbatim>\<open>b.fits\<close>, whose header has no FILTER, for the row of \<^verbatim>\<open>c.fits.gz\<close>
  (the names are taken from the full file list, as under C2).
\<close>

theorem files_with_keys_fails_on_overlap:
  "fst (files_with_keys sample_dir [''imagetyp'', ''filter''] (init sample_dir [''imagetyp'']))
     = Inl (KeyError ''filter'')
   \<and> fst (files_with_keys sample_dir [''filter''] (init sample_dir [''imagetyp'']))
     = Inr [''a.fits'', ''c.fits.gz'']
   \<and> fst (files_with_keys broken_dir [''filter''] (init broken_dir [''imagetyp'']))
     = Inr [''b.fits'']"
  by code_simp

text \<open>
  Claim C7. When the keyword list and the value list differ in length,
  \<^verbatim>\<open>files_with_key_values\<close> raises the \<^verbatim>\<open>ValueError\<close> about the lengths: the outcome is
  that error and no list of files, whatever the directory and the collection hold.
\<close>

theorem length_mismatch_fails:
  "length ks \<noteq> length vs \<Longrightarrow>
     files_with_key_values d ks vs self = (Inl ValueError_same_length, self)"
  by (simp add: files_with_key_values_def)

theorem length_mismatch_fails_witness:
  "length [''A'', ''B''] \<noteq> length [''x'']
   \<and> files_with_key_values sample_dir [''A'', ''B''] [''x''] (init sample_dir [''imagetyp''])
       = (Inl ValueError_same_length, init sample_dir [''imagetyp''])"
proof -
  have h: "length [''A'', ''B''] \<noteq> length [''x'']" by simp
  from h length_mismatch_fails [OF h, of sample_dir "init sample_dir [''imagetyp'']"]
  show ?thesis by simp
qed

text \<open>
  Claim C8. \<^verbatim>\<open>values\<close> is to succeed exactly for the tracked keywords. After the
  setter has added \<^verbatim>\<open>filter\<close> to the keywords of a collection built for \<^verbatim>\<open>imagetyp\<close>,
  \<^verbatim>\<open>has_key\<close> holds for \<^verbatim>\<open>filter\<close> and \<^verbatim>\<open>values\<close> ends in \<^verbatim>\<open>KeyError\<close>: the table
  was not rebuilt (as under C3).
\<close>

theorem values_fails_after_setter:
  "has_key (keywords_setter [''imagetyp'', ''filter''] (init sample_dir [''imagetyp''])) ''filter''
   \<and> fst (values_of ''filter'' False
            (keywords_setter [''imagetyp'', ''filter''] (init sample_dir [''imagetyp''])))
        = Inl (KeyError ''filter'')"
  by code_simp

text \<open>
  Claim C9. A query leaves the object as it was: after \<^verbatim>\<open>files_with_key_values\<close> or
  \<^verbatim>\<open>files_with_keys\<close> the summary table and the keyword list are the ones from before
  the call, so for a keyword that is not tracked, \<^verbatim>\<open>values\<close> still raises the
  \<^verbatim>\<open>ValueError\<close> "not in the current summary" afterwards, also when the query asked for
  that very keyword and scanned the files for it.
\<close>

theorem untracked_query_leaves_cache:
  assumes "keyword \<notin> set (self_keywords self)"
  shows "self_summary_info (snd (files_with_key_values d ks vs self)) = self_summary_info self
       \<and> self_keywords (snd (files_with_key_values d ks vs self)) = self_keywords self
       \<and> self_summary_info (snd (files_with_keys d ks self)) = self_summary_info self
       \<and> self_keywords (snd (files_with_keys d ks self)) = self_keywords self
       \<and> fst (values_of keyword unique (snd (files_with_key_values d ks vs self)))
            = Inl (ValueError_not_in_summary keyword)
       \<and> fst (values_of keyword unique (snd (files_with_keys d ks self)))
            = Inl (ValueError_not_in_summary keyword)"
  using assms
  by (simp add: values_of_def has_key_iff snd_files_with_keys snd_files_with_key_values)

theorem untracked_query_leaves_cache_witness:
  "''filter'' \<notin> set (self_keywords (init sample_dir [''imagetyp'']))
   \<and> fst (files_with_key_values sample_dir [''filter''] [''R''] (init sample_dir [''imagetyp'']))
        = Inr [''a.fits'', ''c.fits.gz'']
   \<and> self_summary_info
         (snd (files_with_key_values sample_dir [''filter''] [''R''] (init sample_dir [''imagetyp''])))
        = self_summary_info (init sample_dir [''imagetyp''])
   \<and> fst (values_of ''filter'' False
         (snd (files_with_key_values sample_dir [''filter''] [''R''] (init sample_dir [''imagetyp'']))))
        = Inl (ValueError_not_in_summary ''filter'')"
proof -
  have h: "''filter'' \<notin> set (self_keywords (init sample_dir [''imagetyp'']))"
    by (simp add: init_def Let_def)
  have r: "fst (files_with_key_values sample_dir [''filter''] [''R''] (init sample_dir [''imagetyp'']))
        = Inr [''a.fits'', ''c.fits.gz'']"
    by code_simp
  from h r
    untracked_query_leaves_cache [OF h, of sample_dir "[''filter'']" "[''R'']" False]
  show ?thesis by simp
qed

text \<open>
  Claim C10. With an empty keyword list and an empty value list
  \<^verbatim>\<open>files_with_key_values\<close> filters nothing: it returns every name of the collection's
  file list, whichever keywords are tracked and whatever the directory holds.
\<close>

theorem empty_query_returns_all_files:
  "files_with_key_values d [] [] self = (Inr (self_files self), self)"
  by (simp add: files_with_key_values_def find_keywords_by_values_def use_values_of_def map_nth)

theorem empty_query_returns_all_files_witness:
  "fst (files_with_key_values sample_dir [] [] (init sample_dir [''imagetyp'']))
     = Inr [''a.fits'', ''b.fits'', ''c.fits.gz'']"
  using empty_query_returns_all_files [of sample_dir "init sample_dir [''imagetyp'']"] sample_files
  by (simp add: init_def Let_def)

end
